theory Spec2Isabelle
  imports Main
begin

section \<open>Events\<close>

text \<open>
  The event of nostr-tools: \<open>id\<close> and \<open>pubkey\<close> are lower-case hex strings,
  \<open>created_at\<close> is in unix seconds, a tag is an array of strings whose first element
  is the tag name and whose second element, when there is one, is the tag value.
\<close>

record event =
  id_event :: string
  pubkey :: string
  created_at :: int
  kind :: nat
  tags :: "string list list"
  content :: string
  sig :: string

text \<open>The destructuring \<open>([name, value])\<close> of a tag: a missing element is \<open>undefined\<close>.\<close>

definition tag_name :: "string list \<Rightarrow> string option" where
  "tag_name t = (case t of [] \<Rightarrow> None | n # _ \<Rightarrow> Some n)"

definition tag_value :: "string list \<Rightarrow> string option" where
  "tag_value t = (case t of n # v # _ \<Rightarrow> Some v | _ \<Rightarrow> None)"

text \<open>\<open>Array.prototype.find\<close>: the first element satisfying the predicate.\<close>

fun find_first :: "('a \<Rightarrow> bool) \<Rightarrow> 'a list \<Rightarrow> 'a option" where
  "find_first P [] = None"
| "find_first P (x # xs) = (if P x then Some x else find_first P xs)"

text \<open>
  \<open>[...new Set(xs)]\<close> and \<open>Set.add\<close>: a JavaScript set keeps insertion order and
  ignores an element it already has.
\<close>

definition set_add :: "'a list \<Rightarrow> 'a \<Rightarrow> 'a list" where
  "set_add acc x = (if x \<in> set acc then acc else acc @ [x])"

definition unique :: "'a list \<Rightarrow> 'a list" where
  "unique xs = foldl set_add [] xs"

text \<open>
  \<open>a.localeCompare(b)\<close> on ids. Ids are strings over \<open>0-9a-f\<close> of one length, where
  the collation order is the order of the character codes: the result is negative, zero
  or positive as \<open>a\<close> is before, equal to or after \<open>b\<close>.
\<close>

fun localeCompare :: "string \<Rightarrow> string \<Rightarrow> int" where
  "localeCompare [] [] = 0"
| "localeCompare [] (y # ys) = - 1"
| "localeCompare (x # xs) [] = 1"
| "localeCompare (x # xs) (y # ys) =
     (if (of_char x :: nat) < of_char y then - 1
      else if (of_char y :: nat) < of_char x then 1
      else localeCompare xs ys)"

text \<open>The kinds of nostr-tools/kinds (NIP-01).\<close>

definition EventDeletion :: nat where
  "EventDeletion = 5"

definition isReplaceableKind :: "nat \<Rightarrow> bool" where
  "isReplaceableKind k \<longleftrightarrow> k = 0 \<or> k = 3 \<or> (10000 \<le> k \<and> k < 20000)"

definition isEphemeralKind :: "nat \<Rightarrow> bool" where
  "isEphemeralKind k \<longleftrightarrow> 20000 \<le> k \<and> k < 30000"

definition isAddressableKind :: "nat \<Rightarrow> bool" where
  "isAddressableKind k \<longleftrightarrow> 30000 \<le> k \<and> k < 40000"


fun insort_by :: "('a \<Rightarrow> 'a \<Rightarrow> int) \<Rightarrow> 'a \<Rightarrow> 'a list \<Rightarrow> 'a list" where
  "insort_by cmp x [] = [x]"
| "insort_by cmp x (y # ys) =
     (if cmp x y \<le> 0 then x # y # ys else y # insort_by cmp x ys)"

definition sort_by :: "('a \<Rightarrow> 'a \<Rightarrow> int) \<Rightarrow> 'a list \<Rightarrow> 'a list" where
  "sort_by cmp xs = foldr (insort_by cmp) xs []"


section \<open>Constants of src/nostr.ts\<close>

definition is_lower_hex :: "char \<Rightarrow> bool" where
  "is_lower_hex c \<longleftrightarrow> c \<in> set ''0123456789abcdef''"

definition hexRegExp :: "string \<Rightarrow> bool" where
  \<comment> \<open>Modelled from the spec: the constant \<open>hexRegExp\<close> of src/nostr.ts is not among the
      sources; the spec has ids and pubkeys as 32 bytes in hex, that is 64 hex digits,
      lower-case as ids of verified events are.\<close>
  "hexRegExp s \<longleftrightarrow> length s = 64 \<and> list_all is_lower_hex s"

definition is_letter :: "char \<Rightarrow> bool" where
  "is_letter c \<longleftrightarrow>
     (let n = (of_char c :: nat) in (65 \<le> n \<and> n \<le> 90) \<or> (97 \<le> n \<and> n \<le> 122))"

definition tagsFilterRegExp :: "string \<Rightarrow> bool" where
  \<comment> \<open>Modelled from the spec: the constant \<open>tagsFilterRegExp\<close> of src/nostr.ts is not among
      the sources; the spec has the tag filter keys as \<open>#<letter>\<close> and does not list the
      letters that are indexed, so every letter is. The properties below use only that
      \<open>d\<close> is indexed, which the query of \<open>saveAddressableEvent\<close> relies on.\<close>
  "tagsFilterRegExp s \<longleftrightarrow> (case s of [h, c] \<Rightarrow> h = CHR ''#'' \<and> is_letter c | _ \<Rightarrow> False)"

section \<open>Storage: the D1 table and the KV namespace\<close>

text \<open>
  A row of the table \<open>events\<close>. \<open>UNHEX\<close> on the way in and \<open>LOWER(HEX(.))\<close> on the way
  out are the identity on lower-case hex strings, so a row holds the strings themselves.
  The column \<open>tags\<close> is \<open>NULL\<close> or the JSON object of the indexed tags, from a tag name
  to the array of its values.
\<close>

record d1_row =
  col_id :: string
  col_pubkey :: string
  col_kind :: nat
  col_tags :: "(string \<times> string list) list option"
  col_created_at :: int

text \<open>
  \<open>env.DB\<close> is the table, in insertion order; \<open>env.events\<close> is the KV namespace, from an
  event id to the event and its metadata \<open>(ipAddress, receivedAt)\<close>; \<open>env.LOCAL\<close>
  says whether the namespace is read key by key or through the bulk interface. The
  table's declaration is not among the sources: \<open>INSERT\<close> appends a row. Calls to the
  two stores are taken to succeed.
\<close>

record bindings =
  DB :: "d1_row list"
  events :: "string \<rightharpoonup> event \<times> (string option \<times> int)"
  LOCAL :: bool

text \<open>\<open>Map.set\<close>: a key already present keeps its place.\<close>

fun map_set :: "('k \<times> 'v) list \<Rightarrow> 'k \<Rightarrow> 'v \<Rightarrow> ('k \<times> 'v) list" where
  "map_set [] k v = [(k, v)]"
| "map_set ((k', v') # m) k v = (if k' = k then (k, v) # m else (k', v') # map_set m k v)"

definition indexedTags :: "event \<Rightarrow> (string \<times> string) list" where
  "indexedTags e =
     List.map_filter
       (\<lambda>t. case tag_name t of
               None \<Rightarrow> None
             | Some name \<Rightarrow>
                 (case tag_value t of
                    None \<Rightarrow> None
                  | Some v \<Rightarrow> if tagsFilterRegExp (CHR ''#'' # name) then Some (name, v) else None))
       (tags e)"

definition indexedTagsMap :: "event \<Rightarrow> (string \<times> string list) list" where
  "indexedTagsMap e =
     foldl (\<lambda>m (name, v).
              let vs = (case map_of m name of None \<Rightarrow> [] | Some vs \<Rightarrow> vs)
              in map_set m name (if v \<in> set vs then vs else vs @ [v]))
       [] (indexedTags e)"

definition saveToKV :: "event \<Rightarrow> string option \<Rightarrow> int \<Rightarrow> bindings \<Rightarrow> bindings" where
  "saveToKV e ipAddress now env = env\<lparr>events := (events env)(id_event e \<mapsto> (e, (ipAddress, now)))\<rparr>"

text \<open>The values bound to the \<open>INSERT\<close>: the row of an event.\<close>

definition row_of :: "event \<Rightarrow> d1_row" where
  "row_of e =
     \<lparr>col_id = id_event e, col_pubkey = pubkey e, col_kind = kind e,
      col_tags = (if indexedTagsMap e \<noteq> [] then Some (indexedTagsMap e) else None),
      col_created_at = created_at e\<rparr>"

definition saveToD1 :: "event \<Rightarrow> bindings \<Rightarrow> bindings" where
  "saveToD1 e env = env\<lparr>DB := DB env @ [row_of e]\<rparr>"

definition save :: "event \<Rightarrow> string option \<Rightarrow> int \<Rightarrow> bindings \<Rightarrow> bindings" where
  "save e ipAddress now env = saveToD1 e (saveToKV e ipAddress now env)"

definition delete :: "string list \<Rightarrow> bindings \<Rightarrow> bindings" where
  "delete ids env =
     (if ids = [] then env
      else env\<lparr>DB := filter (\<lambda>r. col_id r \<notin> set ids) (DB env),
               events := foldl (\<lambda>kv i. kv(i := None)) (events env) ids\<rparr>)"

text \<open>
  \<open>ORDER BY created_at DESC\<close>: the rows with the later \<open>created_at\<close> first; rows of one
  \<open>created_at\<close> are taken in table order.
\<close>

definition order_by_created_at_desc :: "d1_row list \<Rightarrow> d1_row list" where
  "order_by_created_at_desc rows = sort_key (\<lambda>r. - col_created_at r) rows"

text \<open>\<open>json_each(json_extract(tags, '$.name'))\<close>: the values of one tag name in a row.\<close>

definition json_each_tag :: "(string \<times> string list) list option \<Rightarrow> string \<Rightarrow> string list" where
  "json_each_tag ts name =
     (case ts of None \<Rightarrow> [] | Some m \<Rightarrow> (case map_of m name of None \<Rightarrow> [] | Some vs \<Rightarrow> vs))"

definition saveLatestEvent ::
  "event \<Rightarrow> (string \<times> int) list \<Rightarrow> string option \<Rightarrow> int \<Rightarrow> bindings \<Rightarrow> bindings" where
  "saveLatestEvent e results ipAddress now env =
     (case results of
        [] \<Rightarrow> save e ipAddress now env
      | latest # _ \<Rightarrow>
          if snd latest > created_at e \<or>
             (snd latest = created_at e \<and> localeCompare (id_event e) (fst latest) \<ge> 0)
          then env
          else save e ipAddress now (delete (map fst results) env))"

definition replaceable_results :: "event \<Rightarrow> bindings \<Rightarrow> (string \<times> int) list" where
  "replaceable_results e env =
     map (\<lambda>r. (col_id r, col_created_at r))
       (order_by_created_at_desc
          (filter (\<lambda>r. col_kind r = kind e \<and> col_pubkey r = pubkey e) (DB env)))"

definition saveReplaceableEvent :: "event \<Rightarrow> string option \<Rightarrow> int \<Rightarrow> bindings \<Rightarrow> bindings" where
  "saveReplaceableEvent e ipAddress now env =
     saveLatestEvent e (replaceable_results e env) ipAddress now env"

definition identifier_of :: "event \<Rightarrow> string" where
  "identifier_of e =
     (case find_first (\<lambda>t. tag_name t = Some ''d'') (tags e) of
        None \<Rightarrow> ''''
      | Some t \<Rightarrow> (case tag_value t of None \<Rightarrow> '''' | Some v \<Rightarrow> v))"

definition addressable_results :: "event \<Rightarrow> bindings \<Rightarrow> (string \<times> int) list" where
  "addressable_results e env =
     map (\<lambda>r. (col_id r, col_created_at r))
       (order_by_created_at_desc
          (filter (\<lambda>r. col_kind r = kind e \<and> col_pubkey r = pubkey e \<and>
                       identifier_of e \<in> set (json_each_tag (col_tags r) ''d''))
             (DB env)))"

definition saveAddressableEvent :: "event \<Rightarrow> string option \<Rightarrow> int \<Rightarrow> bindings \<Rightarrow> bindings" where
  "saveAddressableEvent e ipAddress now env =
     saveLatestEvent e (addressable_results e env) ipAddress now env"

definition deleteBy :: "event \<Rightarrow> bindings \<Rightarrow> bindings" where
  "deleteBy e env =
     (let ids = List.map_filter
                  (\<lambda>t. case tag_value t of
                          None \<Rightarrow> None
                        | Some v \<Rightarrow> if tag_name t = Some ''e'' \<and> hexRegExp v then Some v else None)
                  (tags e);
          uniqueIds = unique ids
      in if uniqueIds = [] then env
         else
           let results = filter (\<lambda>r. col_id r \<in> set uniqueIds) (DB env);
               deleteIds = map col_id
                 (filter (\<lambda>r. col_pubkey r = pubkey e \<and> col_kind r \<noteq> EventDeletion) results)
           in delete deleteIds env)"

section \<open>Configuration\<close>

text \<open>
  The merged configuration (config/default.ts, overridden by config/override.ts): the
  limits of \<open>nip11.limitation\<close> and the relay's own settings. The default values are
  those of config/default.ts.
\<close>

record config =
  max_subscriptions :: nat
  max_filters :: nat
  max_limit :: nat
  max_subid_length :: nat
  auth_required :: bool
  restricted_writes :: bool
  auth_timeout :: int
  auth_limit :: nat
  default_limit :: int

definition defaultConfig :: config where
  "defaultConfig =
     \<lparr>max_subscriptions = 20, max_filters = 10, max_limit = 500, max_subid_length = 50,
      auth_required = False, restricted_writes = True,
      auth_timeout = 600, auth_limit = 5, default_limit = 50\<rparr>"

section \<open>Filters and find\<close>

text \<open>
  The filter of nostr-tools. A key that is absent is \<open>None\<close>. \<open>rest\<close> holds every other
  key of the object in order, the tag filters \<open>#<letter>\<close> among them; the value of
  such a key is \<open>None\<close> when it is not an array of strings.
\<close>

record filter =
  ids :: "string list option"
  authors :: "string list option"
  kinds :: "nat list option"
  since :: "int option"
  until :: "int option"
  limit :: "int option"
  search :: "string option"
  rest :: "(string \<times> string list option) list"












section \<open>Connections and frames\<close>

record session =
  challenge :: string
  challengedAt :: int

text \<open>The attachment of a socket; \<open>pubkeys\<close> is a \<open>Set\<close>, in insertion order.\<close>

record connection =
  id_conn :: string
  ipAddress :: "string option"
  url :: string
  auth :: "session option"
  pubkeys :: "string list"

text \<open>The frames the relay sends.\<close>

datatype frame =
    OK string bool string
  | EVENT string event
  | EOSE string
  | CLOSED string string
  | NOTICE string
  | AUTH string

text \<open>
  The state of the durable object as the handlers use it: \<open>storage\<close> holds, for a
  connection id, the map from subscription id to filters (in insertion order);
  \<open>getWebSockets\<close> is the list of live sockets, each given by the id of its connection.
\<close>

record durable_state =
  storage :: "string \<rightharpoonup> (string \<times> filter list) list"
  getWebSockets :: "string list"

section \<open>The EVENT handler\<close>

text \<open>
  \<open>#broadcast\<close>: for each live socket and each of its subscriptions with a filter that
  \<open>broadcastable\<close> accepts, one EVENT frame on that socket. \<open>broadcastable\<close> (src/nostr.ts)
  is not among the sources and is a parameter. A sent frame is paired with the id of the
  connection of the socket it is sent on.
\<close>

definition broadcast ::
  "(filter \<Rightarrow> event \<Rightarrow> bool) \<Rightarrow> durable_state \<Rightarrow> event \<Rightarrow> (string \<times> frame) list" where
  "broadcast broadcastable ctx e =
     (let subscriptionsMap = (storage ctx)(''maintenance'' := None)
      in concat (map (\<lambda>ws.
            case subscriptionsMap ws of
              None \<Rightarrow> []
            | Some subscriptions \<Rightarrow>
                map (\<lambda>(sid, filters). (ws, EVENT sid e))
                  (filter (\<lambda>(sid, filters). list_ex (\<lambda>f. broadcastable f e) filters)
                     subscriptions))
          (getWebSockets ctx)))"

definition isProtected :: "event \<Rightarrow> bool" where
  "isProtected e = list_ex (\<lambda>t. tag_name t = Some ''-'') (tags e)"

definition has_d_tag :: "event \<Rightarrow> bool" where
  "has_d_tag e = list_ex (\<lambda>t. tag_name t = Some ''d'' \<and> tag_value t \<noteq> None) (tags e)"

text \<open>
  The two nested conditions under which the handler asks for authentication: the
  connection is not authenticated as the author, and the relay or the event requires it.
\<close>

definition needs_auth :: "config \<Rightarrow> connection \<Rightarrow> event \<Rightarrow> bool" where
  "needs_auth cfg conn e \<longleftrightarrow>
     (auth conn = None \<or> pubkey e \<notin> set (pubkeys conn)) \<and>
     (auth_required cfg \<or> restricted_writes cfg \<or> isProtected e)"

definition sendAuthChallenge :: "connection \<Rightarrow> string \<Rightarrow> (string \<times> frame) list" where
  \<comment> \<open>Modelled from the spec: \<open>sendAuthChallenge\<close> (src/message/sender/auth.ts) is not among
      the sources; the spec has it send the fresh challenge to the client.\<close>
  "sendAuthChallenge conn uuid = [(id_conn conn, AUTH uuid)]"

text \<open>
  \<open>EventMessageHandler.handle\<close>. \<open>verifyEvent\<close> (nostr-tools) is a parameter; \<open>uuid\<close> is
  the challenge that \<open>sendAuthChallenge\<close> draws and \<open>now\<close> is \<open>Date.now()\<close>. The result
  is the attachment of the socket, the stores and the frames sent, in order.
\<close>

definition EventMessageHandler_handle ::
  "(event \<Rightarrow> bool) \<Rightarrow> (filter \<Rightarrow> event \<Rightarrow> bool) \<Rightarrow> config \<Rightarrow> string \<Rightarrow> int \<Rightarrow>
   durable_state \<Rightarrow> bindings \<Rightarrow> connection \<Rightarrow> event \<Rightarrow>
   connection \<times> bindings \<times> (string \<times> frame) list" where
  "EventMessageHandler_handle verifyEvent broadcastable cfg uuid now ctx env conn e =
     (if \<not> verifyEvent e then (conn, env, [(id_conn conn, NOTICE ''invalid: event'')])
      else if needs_auth cfg conn e
      then (conn\<lparr>auth := Some \<lparr>challenge = uuid, challengedAt = now\<rparr>\<rparr>, env,
            sendAuthChallenge conn uuid @
            [(id_conn conn,
              OK (id_event e) False
                (''auth-required: '' @
                 (if isProtected e then ''this event may only be published by its author''
                  else ''we only accept events from registered users'')))])
      else
        let accepted = (id_conn conn, OK (id_event e) True []) # broadcast broadcastable ctx e
        in if isReplaceableKind (kind e)
           then (conn, saveReplaceableEvent e (ipAddress conn) now env, accepted)
           else if isAddressableKind (kind e)
           then if \<not> has_d_tag e
                then (conn, env,
                      [(id_conn conn,
                        OK (id_event e) False ''invalid: addressable event requires d tag'')])
                else (conn, saveAddressableEvent e (ipAddress conn) now env, accepted)
           else if \<not> isEphemeralKind (kind e)
           then (conn,
                 (let env' = save e (ipAddress conn) now env
                  in if kind e = EventDeletion then deleteBy e env' else env'),
                 accepted)
           else (conn, env, accepted))"

section \<open>The REQ handler\<close>



section \<open>Authentication\<close>

text \<open>
  \<open>Auth.Challenge.validate\<close>. \<open>normalizeURL\<close> (nostr-tools) is a parameter; it throws on a
  string that is not a URL, which is \<open>None\<close> here, and then so does \<open>validate\<close>.
  \<open>now\<close> is \<open>Date.now()\<close>, in milliseconds as \<open>challengedAt\<close> is.
\<close>

definition tag_at1 :: "string \<Rightarrow> event \<Rightarrow> string option" where
  "tag_at1 name e =
     (case find_first (\<lambda>t. tag_name t = Some name) (tags e) of
        None \<Rightarrow> None
      | Some t \<Rightarrow> tag_value t)"

definition Challenge_validate ::
  "(string \<Rightarrow> string option) \<Rightarrow> config \<Rightarrow> int \<Rightarrow> event \<Rightarrow> session \<Rightarrow> string \<Rightarrow> bool option" where
  "Challenge_validate normalizeURL cfg now e a u =
     (if kind e \<noteq> 22242 then Some False
      else if challengedAt a + auth_timeout cfg * 1000 < now then Some False
      else if tag_at1 ''challenge'' e \<noteq> Some (challenge a) then Some False
      else case tag_at1 ''relay'' e of
             None \<Rightarrow> Some False
           | Some relay \<Rightarrow>
               (case normalizeURL relay of
                  None \<Rightarrow> None
                | Some r \<Rightarrow>
                    (case normalizeURL u of
                       None \<Rightarrow> None
                     | Some r' \<Rightarrow> if r \<noteq> r' then Some False else Some True)))"

text \<open>A number spliced into a template string: its decimal digits.\<close>

fun string_of_nat :: "nat \<Rightarrow> string" where
  "string_of_nat n =
     (if n < 10 then [char_of (48 + n)]
      else string_of_nat (n div 10) @ [char_of (48 + n mod 10)])"

declare string_of_nat.simps [simp del]

text \<open>
  \<open>AuthMessageHandler.handle\<close>. \<open>registered\<close> stands for \<open>Account.exists\<close>
  (src/Account.ts, not among the sources). The result is \<open>None\<close> when the handler throws,
  else the attachment of the socket and the frames sent on it.
\<close>

definition AuthMessageHandler_handle ::
  "(string \<Rightarrow> string option) \<Rightarrow> (string \<Rightarrow> bool) \<Rightarrow> config \<Rightarrow> int \<Rightarrow> connection \<Rightarrow> event \<Rightarrow>
   (connection \<times> frame list) option" where
  "AuthMessageHandler_handle normalizeURL registered cfg now conn e =
     (if pubkey e \<in> set (pubkeys conn)
      then Some (conn, [OK (id_event e) True ''duplicate: already authenticated''])
      else if length (pubkeys conn) \<ge> auth_limit cfg
      then Some (conn,
             [NOTICE (''too many authentications (> '' @ string_of_nat (auth_limit cfg) @ '')'')])
      else case (case auth conn of
                   None \<Rightarrow> Some False
                 | Some a \<Rightarrow> Challenge_validate normalizeURL cfg now e a (url conn)) of
             None \<Rightarrow> None
           | Some False \<Rightarrow> Some (conn, [OK (id_event e) False ''invalid: auth''])
           | Some True \<Rightarrow>
               if (auth_required cfg \<or> restricted_writes cfg) \<and> \<not> registered (pubkey e)
               then Some (conn, [OK (id_event e) False ''restricted: required to register''])
               else Some (conn\<lparr>pubkeys := set_add (pubkeys conn) (pubkey e)\<rparr>,
                          [OK (id_event e) True []]))"


section \<open>The words of the specification\<close>

text \<open>
  The Latest-Wins rule as the specification words it: the later \<open>created_at\<close> wins; on a
  tie the id that is lexicographically smaller, as a string of bytes, wins. A version is
  given by its id and its \<open>created_at\<close>.
\<close>

definition lex_less :: "string \<Rightarrow> string \<Rightarrow> bool" where
  "lex_less a b \<longleftrightarrow> (a, b) \<in> lexord {(c, d). (of_char c :: nat) < of_char d}"

definition wins_over :: "string \<times> int \<Rightarrow> string \<times> int \<Rightarrow> bool" where
  "wins_over x y \<longleftrightarrow> snd x > snd y \<or> (snd x = snd y \<and> lex_less (fst x) (fst y))"

text \<open>
  The ids a deletion event refers to: the values of its \<open>e\<close> tags that are ids. A stored
  row is deletable by the event when the event refers to it, the row has the pubkey of
  the event, and the row is not itself a deletion.
\<close>

definition e_tag_ids :: "event \<Rightarrow> string set" where
  "e_tag_ids d =
     {i. \<exists>t \<in> set (tags d). tag_name t = Some ''e'' \<and> tag_value t = Some i \<and> hexRegExp i}"

definition deletable :: "event \<Rightarrow> d1_row \<Rightarrow> bool" where
  "deletable d x \<longleftrightarrow>
     col_id x \<in> e_tag_ids d \<and> col_pubkey x = pubkey d \<and> col_kind x \<noteq> EventDeletion"

text \<open>
  An id is the hash of the event, so rows of one id agree on pubkey and kind (the table
  may hold an event twice).
\<close>

definition ids_consistent :: "bindings \<Rightarrow> bool" where
  "ids_consistent env \<longleftrightarrow>
     (\<forall>r \<in> set (DB env). \<forall>r' \<in> set (DB env).
        col_id r = col_id r' \<longrightarrow> col_pubkey r = col_pubkey r' \<and> col_kind r = col_kind r')"

text \<open>The values of a tag name in the object of indexed tags.\<close>

definition values_of :: "(string \<times> string list) list \<Rightarrow> string \<Rightarrow> string list" where
  "values_of m n = (case map_of m n of None \<Rightarrow> [] | Some vs \<Rightarrow> vs)"



text \<open>
  The rows a key query returns, for a key given as a predicate on rows, and the version
  (id and \<open>created_at\<close>) of an event.
\<close>

definition results_for :: "(d1_row \<Rightarrow> bool) \<Rightarrow> bindings \<Rightarrow> (string \<times> int) list" where
  "results_for K env =
     map (\<lambda>r. (col_id r, col_created_at r)) (order_by_created_at_desc (filter K (DB env)))"

definition version :: "event \<Rightarrow> string \<times> int" where
  "version e = (id_event e, created_at e)"

text \<open>
  An id is new to the stores, or known to them only under the key: every row with the id
  is a row of the key, and the key-value store has the id only if the table has it.
\<close>

definition keyed_or_new :: "(d1_row \<Rightarrow> bool) \<Rightarrow> bindings \<Rightarrow> string \<Rightarrow> bool" where
  "keyed_or_new K env i \<longleftrightarrow>
     (\<forall>r \<in> set (DB env). col_id r = i \<longrightarrow> K r) \<and>
     (events env i \<noteq> None \<longrightarrow> i \<in> col_id ` set (DB env))"

section \<open>Sample inputs\<close>

text \<open>
  Concrete inputs for the instances below. The stand-ins for the library functions: a
  verifier that accepts an event whose \<open>sig\<close> is \<open>sig_good\<close>, a normaliser that leaves a
  URL as it is, a matcher that looks at the kinds of a filter, and a register that knows
  one pubkey.
\<close>

definition id_a :: string where "id_a = ''aaaaaaaaaaaaaaaaaaaaaaaaaaaaaaaaaaaaaaaaaaaaaaaaaaaaaaaaaaaaaaaa''"

definition id_b :: string where "id_b = ''bbbbbbbbbbbbbbbbbbbbbbbbbbbbbbbbbbbbbbbbbbbbbbbbbbbbbbbbbbbbbbbb''"

definition pk1 :: string where "pk1 = ''1111111111111111111111111111111111111111111111111111111111111111''"

definition pk2 :: string where "pk2 = ''2222222222222222222222222222222222222222222222222222222222222222''"

definition sig_good :: string where "sig_good = ''good''"

definition sample_verifyEvent :: "event \<Rightarrow> bool" where
  "sample_verifyEvent e \<longleftrightarrow> sig e = sig_good"

definition sample_broadcastable :: "filter \<Rightarrow> event \<Rightarrow> bool" where
  "sample_broadcastable f e = (case kinds f of None \<Rightarrow> True | Some ks \<Rightarrow> kind e \<in> set ks)"

definition sample_registered :: "string \<Rightarrow> bool" where
  "sample_registered p \<longleftrightarrow> p = pk1"

definition empty_filter :: filter where
  "empty_filter =
     \<lparr>ids = None, authors = None, kinds = None, since = None, until = None, limit = None,
      search = None, rest = []\<rparr>"

definition relay_url :: string where "relay_url = ''wss://relay.example/''"

text \<open>A connection authenticated as \<open>pk1\<close>, and one that has not been challenged.\<close>

definition conn_authed :: connection where
  "conn_authed =
     \<lparr>id_conn = ''c1'', ipAddress = None, url = relay_url,
      auth = Some \<lparr>challenge = ''ch'', challengedAt = 1000000\<rparr>, pubkeys = [pk1]\<rparr>"

definition conn_fresh :: connection where
  "conn_fresh =
     \<lparr>id_conn = ''c1'', ipAddress = None, url = relay_url, auth = None, pubkeys = []\<rparr>"

text \<open>
  A connection with as many pubkeys as \<open>auth_limit\<close> allows, \<open>pk1\<close> among them, and no
  challenge outstanding.
\<close>

definition conn_full :: connection where
  "conn_full =
     \<lparr>id_conn = ''c1'', ipAddress = None, url = relay_url, auth = None,
      pubkeys = [pk1, ''p2'', ''p3'', ''p4'', ''p5'']\<rparr>"

definition mk_event :: "string \<Rightarrow> nat \<Rightarrow> int \<Rightarrow> string list list \<Rightarrow> event" where
  "mk_event i k t ts =
     \<lparr>id_event = i, pubkey = pk1, created_at = t, kind = k, tags = ts, content = [],
      sig = sig_good\<rparr>"

definition auth_event :: event where
  "auth_event = mk_event id_a 22242 1600 [[''relay'', relay_url], [''challenge'', ''ch'']]"

definition empty_env :: bindings where
  "empty_env = \<lparr>DB = [], events = Map.empty, LOCAL = True\<rparr>"

text \<open>Two live sockets; the second has one subscription, to ephemeral kind 20001.\<close>

definition ctx_two :: durable_state where
  "ctx_two =
     \<lparr>storage = [''c2'' \<mapsto> [(''sub1'', [empty_filter\<lparr>kinds := Some [20001]\<rparr>])]],
      getWebSockets = [''c1'', ''c2'']\<rparr>"

definition id_c :: string where "id_c = ''cccccccccccccccccccccccccccccccccccccccccccccccccccccccccccccccc''"

definition id_d :: string where "id_d = ''dddddddddddddddddddddddddddddddddddddddddddddddddddddddddddddddd''"



text \<open>
  A store holding a note of \<open>pk1\<close>, a note of \<open>pk2\<close> and a deletion event of \<open>pk1\<close>, and a
  deletion event of \<open>pk1\<close> that refers to the three of them and to an id that is not stored.
\<close>

definition env_three :: bindings where
  "env_three =
     save (mk_event id_c 5 30 []) None 3
       (save ((mk_event id_b 1 20 [])\<lparr>pubkey := pk2\<rparr>) None 2
          (save (mk_event id_a 1 10 []) None 1 empty_env))"

definition deletion_event :: event where
  "deletion_event =
     mk_event id_d 5 40 [[''e'', id_a], [''e'', id_b], [''e'', id_c], [''e'', id_d], [''e'']]"



text \<open>
  Two addressable events of one author whose first \<open>d\<close> tag has no value and whose
  second \<open>d\<close> tag has the value \<open>x\<close>; the second event is the later one.
\<close>

definition ev_d1 :: event where
  "ev_d1 = mk_event id_a 30000 1 [[''d''], [''d'', ''x'']]"

definition ev_d2 :: event where
  "ev_d2 = mk_event id_b 30000 2 [[''d''], [''d'', ''x'']]"

section \<open>Frames of the EVENT handler\<close>

definition is_OK :: "frame \<Rightarrow> bool" where
  "is_OK fr = (case fr of OK _ _ _ \<Rightarrow> True | _ \<Rightarrow> False)"

section \<open>Properties of the order on ids\<close>

lemma localeCompare_less: "localeCompare a b < 0 \<longleftrightarrow> lex_less a b"
  unfolding lex_less_def
  by (induction a b rule: localeCompare.induct) auto

lemma localeCompare_eq: "localeCompare a b = 0 \<longleftrightarrow> a = b"
  by (induction a b rule: localeCompare.induct) auto


lemma lex_less_irrefl: "\<not> lex_less a a"
  unfolding lex_less_def by (rule lexord_irreflexive) simp

lemma lex_less_trans: "lex_less a b \<Longrightarrow> lex_less b c \<Longrightarrow> lex_less a c"
  unfolding lex_less_def
  by (erule (1) lexord_trans) (auto simp: trans_def)

lemma lex_less_linear: "lex_less a b \<or> a = b \<or> lex_less b a"
  unfolding lex_less_def
  by (rule lexord_linear) auto

lemma lex_less_asym: "lex_less a b \<Longrightarrow> \<not> lex_less b a"
  using lex_less_trans lex_less_irrefl by blast

lemma localeCompare_ge: "localeCompare a b \<ge> 0 \<longleftrightarrow> \<not> lex_less a b"
  using localeCompare_less [of a b] by linarith

lemma drops_iff:
  "(snd latest > created_at e \<or> (snd latest = created_at e \<and> localeCompare (id_event e) (fst latest) \<ge> 0))
    \<longleftrightarrow> \<not> wins_over (id_event e, created_at e) latest"
  unfolding wins_over_def localeCompare_ge by auto

lemma saveLatestEvent_drops:
  "\<not> wins_over (id_event e, created_at e) latest \<Longrightarrow> saveLatestEvent e (latest # others) ip now env = env"
  using drops_iff [where latest = latest and e = e] by (simp add: saveLatestEvent_def)

lemma saveLatestEvent_wins:
  "wins_over (id_event e, created_at e) latest \<Longrightarrow>
   saveLatestEvent e (latest # others) ip now env = save e ip now (delete (map fst (latest # others)) env)"
  using drops_iff [where latest = latest and e = e] by (auto simp: saveLatestEvent_def)


section \<open>Properties of the stores\<close>

lemma kv_delete_all:
  "foldl (\<lambda>kv i. kv(i := None)) kv is = (\<lambda>k. if k \<in> set is then None else kv k)"
  by (induction "is" arbitrary: kv) (auto simp: fun_eq_iff)

lemma delete_eq:
  "delete is env =
     env\<lparr>DB := filter (\<lambda>r. col_id r \<notin> set is) (DB env),
         events := (\<lambda>k. if k \<in> set is then None else events env k)\<rparr>"
  by (cases "is = []") (simp_all add: delete_def kv_delete_all)

lemma DB_delete [simp]: "DB (delete is env) = filter (\<lambda>r. col_id r \<notin> set is) (DB env)"
  by (simp add: delete_eq)

lemma events_delete [simp]: "events (delete is env) = (\<lambda>k. if k \<in> set is then None else events env k)"
  by (simp add: delete_eq)

lemma LOCAL_delete [simp]: "LOCAL (delete is env) = LOCAL env"
  by (simp add: delete_eq)

lemma DB_save [simp]: "DB (save e ip now env) = DB env @ [row_of e]"
  by (simp add: save_def saveToD1_def saveToKV_def)

lemma events_save [simp]: "events (save e ip now env) = (events env)(id_event e \<mapsto> (e, (ip, now)))"
  by (simp add: save_def saveToD1_def saveToKV_def)

lemma LOCAL_save [simp]: "LOCAL (save e ip now env) = LOCAL env"
  by (simp add: save_def saveToD1_def saveToKV_def)

lemma row_of_simps [simp]:
  "col_id (row_of e) = id_event e" "col_pubkey (row_of e) = pubkey e"
  "col_kind (row_of e) = kind e" "col_created_at (row_of e) = created_at e"
  by (simp_all add: row_of_def)

lemma map_of_map_set: "map_of (map_set m k v) = (map_of m)(k \<mapsto> v)"
  by (induction m k v rule: map_set.induct) (auto simp: fun_eq_iff)

lemma values_of_foldl:
  "set (values_of (foldl (\<lambda>m (name, v).
              let vs = (case map_of m name of None \<Rightarrow> [] | Some vs \<Rightarrow> vs)
              in map_set m name (if v \<in> set vs then vs else vs @ [v])) m xs) n) =
   set (values_of m n) \<union> {v. (n, v) \<in> set xs}"
proof (induction xs arbitrary: m)
  case Nil
  then show ?case by simp
next
  case (Cons x xs)
  obtain k v where x: "x = (k, v)" by (cases x)
  show ?case
    unfolding x foldl_Cons Cons.IH
    by (auto simp: values_of_def map_of_map_set Let_def split: option.splits if_splits)
qed

lemma json_each_tag_row_of:
  "json_each_tag (col_tags (row_of e)) n = values_of (indexedTagsMap e) n"
  by (simp add: json_each_tag_def row_of_def values_of_def)

lemma set_row_values:
  "set (json_each_tag (col_tags (row_of e)) n) = {v. (n, v) \<in> set (indexedTags e)}"
  unfolding json_each_tag_row_of indexedTagsMap_def values_of_foldl
  by (simp add: values_of_def)

lemma in_map_filter: "y \<in> set (List.map_filter f xs) \<longleftrightarrow> (\<exists>x \<in> set xs. f x = Some y)"
  by (induction xs) (auto split: option.splits)

lemma indexedTags_iff:
  "(n, v) \<in> set (indexedTags e) \<longleftrightarrow>
     (\<exists>t \<in> set (tags e). tag_name t = Some n \<and> tag_value t = Some v \<and> tagsFilterRegExp (CHR ''#'' # n))"
  unfolding indexedTags_def in_map_filter
  by (auto split: option.splits if_splits)

lemma tagsFilterRegExp_d: "tagsFilterRegExp ''#d''"
  by (simp add: tagsFilterRegExp_def is_letter_def)

lemma d_values_iff:
  "v \<in> set (json_each_tag (col_tags (row_of e)) ''d'') \<longleftrightarrow>
     (\<exists>t \<in> set (tags e). tag_name t = Some ''d'' \<and> tag_value t = Some v)"
  using tagsFilterRegExp_d by (simp add: set_row_values indexedTags_iff)

lemma find_first_Some: "find_first P xs = Some x \<Longrightarrow> x \<in> set xs \<and> P x"
  by (induction xs) (auto split: if_splits)

lemma tag_at1_Some:
  "tag_at1 n e = Some v \<Longrightarrow> \<exists>t \<in> set (tags e). tag_name t = Some n \<and> tag_value t = Some v"
  unfolding tag_at1_def
  by (auto split: option.splits dest: find_first_Some)

lemma identifier_of_tag_at1: "identifier_of e = (case tag_at1 ''d'' e of None \<Rightarrow> [] | Some v \<Rightarrow> v)"
  by (simp add: identifier_of_def tag_at1_def split: option.splits)

lemma set_order_by [simp]: "set (order_by_created_at_desc rows) = set rows"
  by (simp add: order_by_created_at_desc_def)


lemma set_foldl_set_add: "set (foldl set_add acc xs) = set acc \<union> set xs"
  by (induction xs arbitrary: acc) (auto simp: set_add_def)

lemma set_unique [simp]: "set (unique xs) = set xs"
  by (simp add: unique_def set_foldl_set_add)

lemma unique_Nil_iff: "unique xs = [] \<longleftrightarrow> xs = []"
  by (metis set_unique set_empty)

lemma deleteBy_ids:
  "set (List.map_filter
                  (\<lambda>t. case tag_value t of
                          None \<Rightarrow> None
                        | Some v \<Rightarrow> if tag_name t = Some ''e'' \<and> hexRegExp v then Some v else None)
                  (tags d)) = e_tag_ids d"
proof -
  have "\<And>t i. (case tag_value t of
                          None \<Rightarrow> None
                        | Some v \<Rightarrow> if tag_name t = Some ''e'' \<and> hexRegExp v then Some v else None) = Some i
     \<longleftrightarrow> tag_name t = Some ''e'' \<and> tag_value t = Some i \<and> hexRegExp i"
    subgoal for t i by (cases "tag_value t") auto
    done
  then show ?thesis unfolding e_tag_ids_def by (simp add: set_eq_iff in_map_filter)
qed

lemma deleteBy_eq:
  "deleteBy d env = delete (map col_id (filter (deletable d) (DB env))) env"
proof -
  let ?ids = "List.map_filter
                  (\<lambda>t. case tag_value t of
                          None \<Rightarrow> None
                        | Some v \<Rightarrow> if tag_name t = Some ''e'' \<and> hexRegExp v then Some v else None)
                  (tags d)"
  show ?thesis
  proof (cases "?ids = []")
    case True
    then have "e_tag_ids d = {}" using deleteBy_ids [of d] by simp
    then have "filter (deletable d) (DB env) = []" by (simp add: deletable_def)
    then show ?thesis using True by (simp add: deleteBy_def Let_def unique_def delete_def)
  next
    case False
    then have u: "unique ?ids \<noteq> []" by (simp add: unique_Nil_iff)
    have "filter (\<lambda>r. col_pubkey r = pubkey d \<and> col_kind r \<noteq> EventDeletion)
            (filter (\<lambda>r. col_id r \<in> set (unique ?ids)) (DB env)) = filter (deletable d) (DB env)"
      by (auto simp: deletable_def deleteBy_ids intro: filter_cong)
    then show ?thesis using u by (simp add: deleteBy_def Let_def)
  qed
qed

lemma deletable_by_id:
  assumes "ids_consistent env" and "r \<in> set (DB env)"
  shows "col_id r \<in> set (map col_id (filter (deletable d) (DB env))) \<longleftrightarrow> deletable d r"
proof
  assume "col_id r \<in> set (map col_id (filter (deletable d) (DB env)))"
  then obtain x where x: "x \<in> set (DB env)" "deletable d x" "col_id x = col_id r"
    by auto
  with assms have "col_pubkey x = col_pubkey r \<and> col_kind x = col_kind r"
    unfolding ids_consistent_def by blast
  with x show "deletable d r" by (simp add: deletable_def)
next
  assume "deletable d r"
  with assms(2) show "col_id r \<in> set (map col_id (filter (deletable d) (DB env)))"
    by simp
qed

section \<open>Properties of the handlers\<close>

lemma broadcast_no_OK: "filter (is_OK \<circ> snd) (broadcast bc ctx e) = []"
  unfolding broadcast_def Let_def
  by (induction "getWebSockets ctx") (auto simp: filter_empty_conv is_OK_def split: option.splits)

lemma handle_invalid:
  "\<not> verifyEvent e \<Longrightarrow>
   EventMessageHandler_handle verifyEvent bc cfg uuid now ctx env conn e =
     (conn, env, [(id_conn conn, NOTICE ''invalid: event'')])"
  by (simp add: EventMessageHandler_handle_def)

lemma handle_valid_OK:
  assumes "verifyEvent e"
  shows "\<exists>success message.
     filter (is_OK \<circ> snd)
       (snd (snd (EventMessageHandler_handle verifyEvent bc cfg uuid now ctx env conn e))) =
     [(id_conn conn, OK (id_event e) success message)]"
proof (cases "needs_auth cfg conn e")
  case True
  then show ?thesis using assms
    by (auto simp: EventMessageHandler_handle_def sendAuthChallenge_def is_OK_def)
next
  case False
  then show ?thesis using assms
    by (auto simp: EventMessageHandler_handle_def Let_def broadcast_no_OK is_OK_def)
qed

lemma broadcast_iff:
  "(ws, EVENT sid e') \<in> set (broadcast bc ctx e) \<longleftrightarrow>
     e' = e \<and> ws \<in> set (getWebSockets ctx) \<and> ws \<noteq> ''maintenance'' \<and>
     (\<exists>subscriptions filters. storage ctx ws = Some subscriptions \<and>
        (sid, filters) \<in> set subscriptions \<and> (\<exists>f \<in> set filters. bc f e))"
proof -
  have "(ws, EVENT sid e') \<in> set (broadcast bc ctx e) \<longleftrightarrow>
     (\<exists>w \<in> set (getWebSockets ctx).
        (ws, EVENT sid e') \<in> set (case ((storage ctx)(''maintenance'' := None)) w of
              None \<Rightarrow> []
            | Some subscriptions \<Rightarrow>
                map (\<lambda>(sid, filters). (w, EVENT sid e))
                  (filter (\<lambda>(sid, filters). list_ex (\<lambda>f. bc f e) filters) subscriptions)))"
    unfolding broadcast_def Let_def by simp
  also have "\<dots> \<longleftrightarrow> (\<exists>w \<in> set (getWebSockets ctx). w = ws \<and> w \<noteq> ''maintenance'' \<and> e' = e \<and>
      (\<exists>subscriptions filters. storage ctx w = Some subscriptions \<and>
         (sid, filters) \<in> set subscriptions \<and> (\<exists>f \<in> set filters. bc f e)))"
    apply (rule bex_cong[OF refl])
    apply (auto simp: list_ex_iff split: option.splits)
     apply (metis)
    apply force
    done
  also have "\<dots> \<longleftrightarrow> e' = e \<and> ws \<in> set (getWebSockets ctx) \<and> ws \<noteq> ''maintenance'' \<and>
     (\<exists>subscriptions filters. storage ctx ws = Some subscriptions \<and>
        (sid, filters) \<in> set subscriptions \<and> (\<exists>f \<in> set filters. bc f e))"
    by blast
  finally show ?thesis .
qed

lemma ephemeral_not_other:
  "isEphemeralKind k \<Longrightarrow> \<not> isReplaceableKind k \<and> \<not> isAddressableKind k"
  by (auto simp: isEphemeralKind_def isReplaceableKind_def isAddressableKind_def)

text \<open>
  C2, as the code has it: a submission that fails \<open>verifyEvent\<close> is answered with one
  NOTICE frame and no OK frame; every submission that passes it is answered with exactly
  one OK frame, for the id of the event and on the socket of the sender, whatever path the
  handler takes (the other frames it sends are the AUTH challenge and the EVENT frames of
  the broadcast).
\<close>

theorem event_one_OK_unless_invalid:
  "(\<not> verifyEvent e \<longrightarrow>
      snd (snd (EventMessageHandler_handle verifyEvent bc cfg uuid now ctx env conn e)) =
        [(id_conn conn, NOTICE ''invalid: event'')]) \<and>
   (verifyEvent e \<longrightarrow>
      (\<exists>success message.
         filter (is_OK \<circ> snd)
           (snd (snd (EventMessageHandler_handle verifyEvent bc cfg uuid now ctx env conn e))) =
         [(id_conn conn, OK (id_event e) success message)]))"
  using handle_invalid [of verifyEvent e bc cfg uuid now ctx env conn]
    handle_valid_OK [of verifyEvent e bc cfg uuid now ctx env conn]
  by simp

theorem event_one_OK_unless_invalid_witness:
  "sample_verifyEvent (mk_event id_a 1 1600 []) \<and>
   filter (is_OK \<circ> snd)
     (snd (snd (EventMessageHandler_handle sample_verifyEvent sample_broadcastable defaultConfig
        ''u1'' 1600000 ctx_two empty_env conn_fresh (mk_event id_a 1 1600 [])))) =
     [(''c1'', OK id_a False ''auth-required: we only accept events from registered users'')]"
  using event_one_OK_unless_invalid [of sample_verifyEvent "mk_event id_a 1 1600 []"
      sample_broadcastable defaultConfig "''u1''" 1600000 ctx_two empty_env conn_fresh]
  by (simp add: EventMessageHandler_handle_def sample_verifyEvent_def mk_event_def
      needs_auth_def conn_fresh_def defaultConfig_def sendAuthChallenge_def is_OK_def
      isProtected_def)

text \<open>
  C2, as the claim has it, fails: an event that does not verify (its \<open>sig\<close> is not the one
  the verifier accepts) is answered with a NOTICE frame only, so the submission gets no
  OK frame.
\<close>

theorem event_invalid_no_OK:
  "\<not> sample_verifyEvent ((mk_event id_a 1 1600 [])\<lparr>sig := ''bad''\<rparr>) \<and>
   snd (snd (EventMessageHandler_handle sample_verifyEvent sample_broadcastable defaultConfig
      ''u1'' 1600000 ctx_two empty_env conn_authed ((mk_event id_a 1 1600 [])\<lparr>sig := ''bad''\<rparr>))) =
     [(''c1'', NOTICE ''invalid: event'')] \<and>
   filter (is_OK \<circ> snd)
     (snd (snd (EventMessageHandler_handle sample_verifyEvent sample_broadcastable defaultConfig
        ''u1'' 1600000 ctx_two empty_env conn_authed
        ((mk_event id_a 1 1600 [])\<lparr>sig := ''bad''\<rparr>)))) = []"
  by (simp add: EventMessageHandler_handle_def sample_verifyEvent_def mk_event_def
      conn_authed_def sig_good_def is_OK_def)

text \<open>
  C8: an event of an ephemeral kind that verifies and needs no authentication leaves the
  stores as they are (no save is made), is acknowledged with OK true, and is broadcast:
  an EVENT frame goes to a socket under a subscription id exactly when the socket is live
  and one of the filters of that subscription accepts the event.
\<close>

theorem ephemeral_not_stored_but_broadcast:
  assumes "verifyEvent e" and "\<not> needs_auth cfg conn e" and "isEphemeralKind (kind e)"
  shows "EventMessageHandler_handle verifyEvent bc cfg uuid now ctx env conn e =
           (conn, env, (id_conn conn, OK (id_event e) True []) # broadcast bc ctx e) \<and>
         (\<forall>ws sid e'. (ws, EVENT sid e') \<in> set (broadcast bc ctx e) \<longleftrightarrow>
            e' = e \<and> ws \<in> set (getWebSockets ctx) \<and> ws \<noteq> ''maintenance'' \<and>
            (\<exists>subscriptions filters. storage ctx ws = Some subscriptions \<and>
               (sid, filters) \<in> set subscriptions \<and> (\<exists>f \<in> set filters. bc f e)))"
  using assms ephemeral_not_other [of "kind e"] broadcast_iff [of _ _ _ bc ctx e]
  by (simp add: EventMessageHandler_handle_def Let_def)

theorem ephemeral_not_stored_but_broadcast_witness:
  "sample_verifyEvent (mk_event id_a 20001 1600 []) \<and>
   \<not> needs_auth defaultConfig conn_authed (mk_event id_a 20001 1600 []) \<and>
   isEphemeralKind (kind (mk_event id_a 20001 1600 [])) \<and>
   EventMessageHandler_handle sample_verifyEvent sample_broadcastable defaultConfig ''u1''
     1600000 ctx_two empty_env conn_authed (mk_event id_a 20001 1600 []) =
     (conn_authed, empty_env,
      [(''c1'', OK id_a True []), (''c2'', EVENT ''sub1'' (mk_event id_a 20001 1600 []))])"
proof -
  have v: "sample_verifyEvent (mk_event id_a 20001 1600 [])"
    by (simp add: sample_verifyEvent_def mk_event_def)
  have n: "\<not> needs_auth defaultConfig conn_authed (mk_event id_a 20001 1600 [])"
    by (simp add: needs_auth_def conn_authed_def mk_event_def defaultConfig_def isProtected_def)
  have k: "isEphemeralKind (kind (mk_event id_a 20001 1600 []))"
    by (simp add: isEphemeralKind_def mk_event_def)
  have b: "broadcast sample_broadcastable ctx_two (mk_event id_a 20001 1600 []) =
      [(''c2'', EVENT ''sub1'' (mk_event id_a 20001 1600 []))]"
    by (simp add: broadcast_def ctx_two_def sample_broadcastable_def empty_filter_def
        mk_event_def)
  show ?thesis
    using ephemeral_not_stored_but_broadcast [where verifyEvent = sample_verifyEvent
        and e = "mk_event id_a 20001 1600 []" and cfg = defaultConfig and conn = conn_authed
        and bc = sample_broadcastable and uuid = "''u1''" and now = 1600000 and ctx = ctx_two
        and env = empty_env] v n k b
    by (simp add: conn_authed_def mk_event_def)
qed

section \<open>Properties of authentication\<close>

text \<open>
  C6, as the code has it: an AUTH event that arrives later than \<open>auth_timeout\<close> seconds
  after the challenge was issued is rejected whatever it carries; one of kind 22242 that
  echoes the challenge and the relay URL is accepted exactly when it arrives no later
  than that, the instant \<open>challengedAt + auth_timeout * 1000\<close> included.
\<close>

theorem auth_challenge_expiry:
  "(challengedAt a + auth_timeout cfg * 1000 < now \<longrightarrow>
      Challenge_validate normalizeURL cfg now e a u = Some False) \<and>
   (kind e = 22242 \<and> tag_at1 ''challenge'' e = Some (challenge a) \<and>
    tag_at1 ''relay'' e = Some r \<and> normalizeURL r = Some x \<and> normalizeURL u = Some x \<longrightarrow>
      Challenge_validate normalizeURL cfg now e a u =
        Some (now \<le> challengedAt a + auth_timeout cfg * 1000))"
  by (auto simp: Challenge_validate_def)

theorem auth_challenge_expiry_witness:
  "challengedAt \<lparr>challenge = ''ch'', challengedAt = 1000000\<rparr> + auth_timeout defaultConfig * 1000
     < 1600001 \<and>
   kind auth_event = 22242 \<and> tag_at1 ''challenge'' auth_event = Some ''ch'' \<and>
   tag_at1 ''relay'' auth_event = Some relay_url \<and>
   Challenge_validate Some defaultConfig 1600001 auth_event
     \<lparr>challenge = ''ch'', challengedAt = 1000000\<rparr> relay_url = Some False \<and>
   Challenge_validate Some defaultConfig 1599999 auth_event
     \<lparr>challenge = ''ch'', challengedAt = 1000000\<rparr> relay_url = Some True"
  using auth_challenge_expiry [of "\<lparr>challenge = ''ch'', challengedAt = 1000000\<rparr>" defaultConfig
      1600001 Some auth_event relay_url relay_url relay_url]
    auth_challenge_expiry [of "\<lparr>challenge = ''ch'', challengedAt = 1000000\<rparr>" defaultConfig
      1599999 Some auth_event relay_url relay_url relay_url]
  by (simp add: defaultConfig_def auth_event_def mk_event_def tag_at1_def tag_name_def
      tag_value_def relay_url_def)

text \<open>
  C6, as the claim has it, fails at the boundary: an AUTH event that arrives exactly
  \<open>auth_timeout\<close> seconds after the challenge was issued, which is not before
  \<open>T + timeout\<close>, is accepted.
\<close>

theorem auth_accepted_at_timeout:
  "Challenge_validate Some defaultConfig 1600000 auth_event
     \<lparr>challenge = ''ch'', challengedAt = 1000000\<rparr> relay_url = Some True \<and>
   \<not> (1600000 <
      challengedAt \<lparr>challenge = ''ch'', challengedAt = 1000000\<rparr> + auth_timeout defaultConfig * 1000)"
  by (simp add: Challenge_validate_def defaultConfig_def auth_event_def mk_event_def
      tag_at1_def tag_name_def tag_value_def relay_url_def)

text \<open>
  C10: an AUTH event whose pubkey is already in the authorized set of the connection is
  answered with OK true and the duplicate message, and the attachment is left as it is,
  whatever the outstanding challenge, the time, the number of authorized pubkeys and the
  limit on it are.
\<close>

theorem auth_duplicate_first:
  assumes "pubkey e \<in> set (pubkeys conn)"
  shows "AuthMessageHandler_handle normalizeURL registered cfg now conn e =
           Some (conn, [OK (id_event e) True ''duplicate: already authenticated''])"
  using assms by (simp add: AuthMessageHandler_handle_def)

theorem auth_duplicate_first_witness:
  "pubkey (mk_event id_a 1 1600 []) \<in> set (pubkeys conn_full) \<and>
   auth conn_full = None \<and> auth_limit defaultConfig \<le> length (pubkeys conn_full) \<and>
   AuthMessageHandler_handle Some sample_registered defaultConfig 1600000 conn_full
     (mk_event id_a 1 1600 []) =
     Some (conn_full, [OK id_a True ''duplicate: already authenticated''])"
  using auth_duplicate_first [of "mk_event id_a 1 1600 []" conn_full Some sample_registered
      defaultConfig 1600000]
  by (simp add: mk_event_def conn_full_def defaultConfig_def)

section \<open>Properties of replacement and deletion\<close>

lemma mk_event_sel:
  "id_event (mk_event i k t ts) = i" "pubkey (mk_event i k t ts) = pk1"
  "created_at (mk_event i k t ts) = t" "kind (mk_event i k t ts) = k"
  "tags (mk_event i k t ts) = ts"
  by (simp_all add: mk_event_def)

lemma hexRegExp_samples: "hexRegExp id_a" "hexRegExp id_b" "hexRegExp id_c" "hexRegExp id_d"
  by (simp_all add: hexRegExp_def is_lower_hex_def id_a_def id_b_def id_c_def id_d_def)





text \<open>
  C5: in a table where rows of one id agree on pubkey and kind, a stored row that a
  deletion event refers to by id is removed exactly when its pubkey is the pubkey of the
  deletion event and its kind is not the deletion kind; the table after \<open>deleteBy\<close> is
  the table before without those rows, the key-value store loses exactly their ids, and
  ids that are not stored or do not qualify change nothing.
\<close>

theorem deletion_by_author_only:
  assumes "ids_consistent env"
  shows "(\<forall>x \<in> set (DB env). col_id x \<in> e_tag_ids d \<longrightarrow>
            (x \<notin> set (DB (deleteBy d env)) \<longleftrightarrow> col_pubkey x = pubkey d \<and> col_kind x \<noteq> EventDeletion)) \<and>
         DB (deleteBy d env) = filter (\<lambda>x. \<not> deletable d x) (DB env) \<and>
         events (deleteBy d env) =
           (\<lambda>i. if \<exists>x \<in> set (DB env). col_id x = i \<and> deletable d x then None else events env i) \<and>
         LOCAL (deleteBy d env) = LOCAL env"
proof -
  have db: "DB (deleteBy d env) = filter (\<lambda>x. \<not> deletable d x) (DB env)"
    unfolding deleteBy_eq DB_delete
    by (rule filter_cong [OF refl]) (simp only: deletable_by_id [OF assms])
  have kv: "events (deleteBy d env) =
           (\<lambda>i. if \<exists>x \<in> set (DB env). col_id x = i \<and> deletable d x then None else events env i)"
    unfolding deleteBy_eq events_delete by (rule ext) (auto simp: image_iff)
  have 1: "\<forall>x \<in> set (DB env). col_id x \<in> e_tag_ids d \<longrightarrow>
            (x \<notin> set (DB (deleteBy d env)) \<longleftrightarrow> col_pubkey x = pubkey d \<and> col_kind x \<noteq> EventDeletion)"
    unfolding db by (simp add: deletable_def)
  have 4: "LOCAL (deleteBy d env) = LOCAL env"
    by (simp add: deleteBy_eq)
  from 1 db kv 4 show ?thesis by blast
qed

theorem deletion_by_author_only_witness:
  "ids_consistent env_three \<and>
   row_of (mk_event id_a 1 10 []) \<in> set (DB env_three) \<and>
   col_id (row_of (mk_event id_a 1 10 [])) \<in> e_tag_ids deletion_event \<and>
   DB (deleteBy deletion_event env_three) =
     [row_of ((mk_event id_b 1 20 [])\<lparr>pubkey := pk2\<rparr>), row_of (mk_event id_c 5 30 [])] \<and>
   events (deleteBy deletion_event env_three) id_a = None \<and>
   events (deleteBy deletion_event env_three) id_b =
     Some ((mk_event id_b 1 20 [])\<lparr>pubkey := pk2\<rparr>, (None, 2))"
proof -
  have db: "DB env_three =
      [row_of (mk_event id_a 1 10 []), row_of ((mk_event id_b 1 20 [])\<lparr>pubkey := pk2\<rparr>),
       row_of (mk_event id_c 5 30 [])]"
    by (simp add: env_three_def empty_env_def)
  have ne: "id_a \<noteq> id_b" "id_a \<noteq> id_c" "id_b \<noteq> id_c" "pk1 \<noteq> pk2"
    by (simp_all add: id_a_def id_b_def id_c_def pk1_def pk2_def)
  have c: "ids_consistent env_three"
    using ne by (auto simp: ids_consistent_def db mk_event_def)
  have t: "e_tag_ids deletion_event = {id_a, id_b, id_c, id_d}"
    using hexRegExp_samples
    by (auto simp: e_tag_ids_def deletion_event_def mk_event_def tag_name_def tag_value_def)
  have p: "pubkey deletion_event = pk1"
    by (simp add: deletion_event_def mk_event_sel)
  have da: "deletable deletion_event (row_of (mk_event id_a 1 10 []))"
    by (simp add: deletable_def t p mk_event_sel EventDeletion_def)
  have db': "\<not> deletable deletion_event (row_of ((mk_event id_b 1 20 [])\<lparr>pubkey := pk2\<rparr>))"
    using ne by (simp add: deletable_def t p)
  have dc: "\<not> deletable deletion_event (row_of (mk_event id_c 5 30 []))"
    by (simp add: deletable_def t p mk_event_sel EventDeletion_def)
  have kv: "events env_three id_b = Some ((mk_event id_b 1 20 [])\<lparr>pubkey := pk2\<rparr>, (None, 2))"
    using ne by (simp add: env_three_def empty_env_def mk_event_def)
  show ?thesis
    using deletion_by_author_only [OF c, of deletion_event] c ne t da db' dc kv
    by (simp add: db mk_event_sel)
qed

section \<open>Properties of sorting, find and the REQ handler\<close>

lemma set_insort_by [simp]: "set (insort_by cmp x xs) = insert x (set xs)"
  by (induction xs) auto

lemma length_insort_by [simp]: "length (insort_by cmp x xs) = Suc (length xs)"
  by (induction xs) auto

lemma set_sort_by [simp]: "set (sort_by cmp xs) = set xs"
  by (induction xs) (auto simp: sort_by_def)

lemma length_sort_by [simp]: "length (sort_by cmp xs) = length xs"
  by (induction xs) (auto simp: sort_by_def)






































section \<open>Latest-Wins\<close>

lemma version_sel [simp]: "fst (version e) = id_event e" "snd (version e) = created_at e"
  by (simp_all add: version_def)

lemma wins_over_trans: "wins_over x y \<Longrightarrow> wins_over y z \<Longrightarrow> wins_over x z"
  unfolding wins_over_def using lex_less_trans by auto

lemma wins_over_total: "fst x \<noteq> fst y \<Longrightarrow> wins_over x y \<longleftrightarrow> \<not> wins_over y x"
  unfolding wins_over_def using lex_less_linear [of "fst x" "fst y"] lex_less_asym [of "fst x" "fst y"]
  by auto

lemma set_fst_results_for: "set (map fst (results_for K env)) = col_id ` {r \<in> set (DB env). K r}"
  by (auto simp: results_for_def image_iff)

lemma bindings_eqI:
  "DB x = DB y \<Longrightarrow> events x = events y \<Longrightarrow> LOCAL x = LOCAL y \<Longrightarrow>
   bindings.more x = bindings.more y \<Longrightarrow> x = y"
  by (rule bindings.equality)

lemma more_delete [simp]: "bindings.more (delete is env) = bindings.more env"
  by (simp add: delete_eq)

lemma more_save [simp]: "bindings.more (save e ip now env) = bindings.more env"
  by (simp add: save_def saveToD1_def saveToKV_def)

lemma saveLatestEvent_eq:
  "saveLatestEvent x R ip t env =
     (if R = [] \<or> wins_over (version x) (hd R) then save x ip t (delete (map fst R) env) else env)"
proof (cases R)
  case Nil
  then show ?thesis by (simp add: saveLatestEvent_def delete_def)
next
  case (Cons l ls)
  then show ?thesis
    using saveLatestEvent_drops [of x l ls ip t env] saveLatestEvent_wins [of x l ls ip t env]
    by (auto simp: version_def)
qed

lemma order_by_single [simp]: "order_by_created_at_desc [r] = [r]"
  by (simp add: order_by_created_at_desc_def)

lemma order_by_Nil [simp]: "order_by_created_at_desc [] = []"
  by (simp add: order_by_created_at_desc_def)

lemma results_after_save:
  assumes "K (row_of x)"
  shows "results_for K (save x ip t (delete (map fst (results_for K env)) env)) = [version x]"
proof -
  have "filter K (filter (\<lambda>r. col_id r \<notin> set (map fst (results_for K env))) (DB env)) = []"
    unfolding set_fst_results_for by (auto simp: filter_empty_conv)
  then show ?thesis using assms by (simp add: results_for_def version_def)
qed

lemma delete_saved:
  assumes "keyed_or_new K env (id_event x)"
  shows "delete [id_event x] (save x ip t (delete (map fst (results_for K env)) env)) =
         delete (map fst (results_for K env)) env"
proof (rule bindings_eqI)
  let ?I = "map fst (results_for K env)"
  have k: "\<And>r. r \<in> set (DB env) \<Longrightarrow> col_id r = id_event x \<Longrightarrow> col_id r \<in> set ?I"
    using assms unfolding keyed_or_new_def set_fst_results_for by blast
  show "DB (delete [id_event x] (save x ip t (delete ?I env))) = DB (delete ?I env)"
    using k by (auto intro: filter_cong)
  have "events env (id_event x) \<noteq> None \<Longrightarrow> id_event x \<in> set ?I"
  proof -
    assume "events env (id_event x) \<noteq> None"
    with assms obtain r where r: "r \<in> set (DB env)" "col_id r = id_event x"
      unfolding keyed_or_new_def by auto
    with assms have "K r" unfolding keyed_or_new_def by blast
    with r show ?thesis unfolding set_fst_results_for by force
  qed
  then have n: "events (delete ?I env) (id_event x) = None"
    by (cases "events env (id_event x)") auto
  show "events (delete [id_event x] (save x ip t (delete ?I env))) = events (delete ?I env)"
  proof (rule ext)
    fix k
    show "events (delete [id_event x] (save x ip t (delete ?I env))) k = events (delete ?I env) k"
      using n by (cases "k = id_event x") simp_all
  qed
qed simp_all

lemma latest_commute_generic:
  assumes Ka: "K (row_of a)" and Kb: "K (row_of b)" and ne: "id_event a \<noteq> id_event b"
    and fa: "keyed_or_new K env (id_event a)" and fb: "keyed_or_new K env (id_event b)"
  defines "step \<equiv> \<lambda>x ip t env. saveLatestEvent x (results_for K env) ip t env"
  shows "step b ipb tb (step a ipa ta env) = step a ipa ta (step b ipb tb env) \<and>
         (results_for K env = [] \<longrightarrow>
            step b ipb tb (step a ipa ta env) =
              (if wins_over (version a) (version b) then save a ipa ta env else save b ipb tb env))"
proof -
  define R where "R = results_for K env"
  define E0 where "E0 = delete (map fst R) env"
  define Xa where "Xa \<longleftrightarrow> R = [] \<or> wins_over (version a) (hd R)"
  define Xb where "Xb \<longleftrightarrow> R = [] \<or> wins_over (version b) (hd R)"
  have tot: "wins_over (version a) (version b) \<longleftrightarrow> \<not> wins_over (version b) (version a)"
    using ne by (intro wins_over_total) simp
  have sa: "step a ipa ta env = (if Xa then save a ipa ta E0 else env)"
    and sb: "step b ipb tb env = (if Xb then save b ipb tb E0 else env)"
    unfolding step_def Xa_def Xb_def E0_def R_def by (rule saveLatestEvent_eq)+
  have ba: "step b ipb tb (save a ipa ta E0) =
      (if wins_over (version b) (version a) then save b ipb tb E0 else save a ipa ta E0)"
    unfolding step_def E0_def R_def results_after_save [of K a, OF Ka] saveLatestEvent_eq
    using delete_saved [OF fa] by simp
  have ab: "step a ipa ta (save b ipb tb E0) =
      (if wins_over (version a) (version b) then save a ipa ta E0 else save b ipb tb E0)"
    unfolding step_def E0_def R_def results_after_save [of K b, OF Kb] saveLatestEvent_eq
    using delete_saved [OF fb] by simp
  have e0: "R = [] \<Longrightarrow> E0 = env \<and> Xa \<and> Xb"
    by (simp add: E0_def Xa_def Xb_def delete_def)
  have ab_imp: "wins_over (version a) (version b) \<Longrightarrow> Xb \<Longrightarrow> Xa"
    unfolding Xa_def Xb_def using wins_over_trans by blast
  have ba_imp: "wins_over (version b) (version a) \<Longrightarrow> Xa \<Longrightarrow> Xb"
    unfolding Xa_def Xb_def using wins_over_trans by blast
  have comm: "step b ipb tb (step a ipa ta env) = step a ipa ta (step b ipb tb env)"
    using tot ab_imp ba_imp by (cases Xa; cases Xb) (auto simp: sa sb ba ab)
  have w1: "Xa \<Longrightarrow> step b ipb tb (step a ipa ta env) =
      (if wins_over (version a) (version b) then save a ipa ta E0 else save b ipb tb E0)"
    using tot by (simp add: sa ba)
  have win: "R = [] \<Longrightarrow> step b ipb tb (step a ipa ta env) =
      (if wins_over (version a) (version b) then save a ipa ta env else save b ipb tb env)"
    using w1 e0 by metis
  from comm win show ?thesis unfolding R_def by blast
qed

lemma replaceable_results_for:
  "replaceable_results e env =
     results_for (\<lambda>r. col_kind r = kind e \<and> col_pubkey r = pubkey e) env"
  by (simp add: replaceable_results_def results_for_def)

lemma addressable_results_for:
  "addressable_results e env =
     results_for (\<lambda>r. col_kind r = kind e \<and> col_pubkey r = pubkey e \<and>
                      identifier_of e \<in> set (json_each_tag (col_tags r) ''d'')) env"
  by (simp add: addressable_results_def results_for_def)

text \<open>
  Latest-Wins for replaceable events: two events of one kind and pubkey with different
  ids, each new to the stores or known only under the key, commute, and when the key has
  no row yet the winner under the rule is the one stored.
\<close>

lemma latest_wins_replaceable:
  assumes "kind a = kind b" and "pubkey a = pubkey b" and "id_event a \<noteq> id_event b"
    and "keyed_or_new (\<lambda>r. col_kind r = kind a \<and> col_pubkey r = pubkey a) env (id_event a)"
    and "keyed_or_new (\<lambda>r. col_kind r = kind a \<and> col_pubkey r = pubkey a) env (id_event b)"
  shows "saveReplaceableEvent b ipb tb (saveReplaceableEvent a ipa ta env) =
           saveReplaceableEvent a ipa ta (saveReplaceableEvent b ipb tb env) \<and>
         (replaceable_results a env = [] \<longrightarrow>
            saveReplaceableEvent b ipb tb (saveReplaceableEvent a ipa ta env) =
              (if wins_over (version a) (version b) then save a ipa ta env
               else save b ipb tb env))"
  using latest_commute_generic
    [where K = "\<lambda>r. col_kind r = kind a \<and> col_pubkey r = pubkey a" and a = a and b = b
      and env = env and ipa = ipa and ta = ta and ipb = ipb and tb = tb] assms
  by (simp add: saveReplaceableEvent_def replaceable_results_for)

text \<open>
  Latest-Wins for addressable events: the same, for two events of one kind, pubkey and
  identifier whose first \<open>d\<close> tag has a value.
\<close>

lemma latest_wins_addressable:
  assumes "kind a = kind b" and "pubkey a = pubkey b" and "id_event a \<noteq> id_event b"
    and "tag_at1 ''d'' a = Some i" and "tag_at1 ''d'' b = Some i"
    and "keyed_or_new (\<lambda>r. col_kind r = kind a \<and> col_pubkey r = pubkey a \<and>
            i \<in> set (json_each_tag (col_tags r) ''d'')) env (id_event a)"
    and "keyed_or_new (\<lambda>r. col_kind r = kind a \<and> col_pubkey r = pubkey a \<and>
            i \<in> set (json_each_tag (col_tags r) ''d'')) env (id_event b)"
  shows "saveAddressableEvent b ipb tb (saveAddressableEvent a ipa ta env) =
           saveAddressableEvent a ipa ta (saveAddressableEvent b ipb tb env) \<and>
         (addressable_results a env = [] \<longrightarrow>
            saveAddressableEvent b ipb tb (saveAddressableEvent a ipa ta env) =
              (if wins_over (version a) (version b) then save a ipa ta env
               else save b ipb tb env))"
proof -
  have ia: "identifier_of a = i" and ib: "identifier_of b = i"
    using assms(4,5) by (simp_all add: identifier_of_tag_at1)
  have da: "i \<in> set (json_each_tag (col_tags (row_of a)) ''d'')"
    and db: "i \<in> set (json_each_tag (col_tags (row_of b)) ''d'')"
    using tag_at1_Some [OF assms(4)] tag_at1_Some [OF assms(5)] by (simp_all add: d_values_iff)
  show ?thesis
    using latest_commute_generic
      [where K = "\<lambda>r. col_kind r = kind a \<and> col_pubkey r = pubkey a \<and>
            i \<in> set (json_each_tag (col_tags r) ''d'')" and a = a and b = b
        and env = env and ipa = ipa and ta = ta and ipb = ipb and tb = tb] assms(1,2,3,6,7)
      da db
    by (simp add: saveAddressableEvent_def addressable_results_for ia ib)
qed

text \<open>
  C1, at the failing input: two addressable events of one author, kind and identifier
  whose first \<open>d\<close> tag has no value and whose second \<open>d\<close> tag has the value \<open>x\<close>. Each
  passes the \<open>d\<close> tag check of the handler and is acknowledged with OK true; the key
  query of the second, for the identifier \<open>''\<close>, does not return the row of the first,
  which is indexed under \<open>x\<close>, so after both the table holds both: the earlier version
  is not replaced by the later one.
\<close>

theorem valueless_first_d_tag_both_stored:
  "kind ev_d1 = kind ev_d2 \<and> pubkey ev_d1 = pubkey ev_d2 \<and>
   identifier_of ev_d1 = identifier_of ev_d2 \<and> created_at ev_d1 < created_at ev_d2 \<and>
   has_d_tag ev_d1 \<and> has_d_tag ev_d2 \<and>
   EventMessageHandler_handle sample_verifyEvent sample_broadcastable defaultConfig ''u1'' 1
     ctx_two empty_env conn_authed ev_d1 =
     (conn_authed, save ev_d1 None 1 empty_env, [(''c1'', OK id_a True [])]) \<and>
   EventMessageHandler_handle sample_verifyEvent sample_broadcastable defaultConfig ''u1'' 2
     ctx_two (save ev_d1 None 1 empty_env) conn_authed ev_d2 =
     (conn_authed, save ev_d2 None 2 (save ev_d1 None 1 empty_env),
      [(''c1'', OK id_b True [])]) \<and>
   DB (save ev_d2 None 2 (save ev_d1 None 1 empty_env)) = [row_of ev_d1, row_of ev_d2]"
proof -
  have sel: "kind ev_d1 = 30000" "kind ev_d2 = 30000" "pubkey ev_d1 = pk1" "pubkey ev_d2 = pk1"
    "id_event ev_d1 = id_a" "id_event ev_d2 = id_b" "created_at ev_d1 = 1" "created_at ev_d2 = 2"
    "tags ev_d1 = [[''d''], [''d'', ''x'']]" "tags ev_d2 = [[''d''], [''d'', ''x'']]"
    by (simp_all add: ev_d1_def ev_d2_def mk_event_sel)
  have i: "identifier_of ev_d1 = []" "identifier_of ev_d2 = []"
    by (simp_all add: identifier_of_def sel tag_name_def tag_value_def)
  have h: "has_d_tag ev_d1" "has_d_tag ev_d2"
    by (simp_all add: has_d_tag_def sel tag_name_def tag_value_def)
  have v: "sample_verifyEvent ev_d1" "sample_verifyEvent ev_d2"
    by (simp_all add: sample_verifyEvent_def ev_d1_def ev_d2_def mk_event_def)
  have n: "\<not> needs_auth defaultConfig conn_authed ev_d1"
    "\<not> needs_auth defaultConfig conn_authed ev_d2"
    by (simp_all add: needs_auth_def conn_authed_def sel defaultConfig_def isProtected_def
        tag_name_def)
  have k: "isAddressableKind 30000" "\<not> isReplaceableKind 30000"
    by (simp_all add: isAddressableKind_def isReplaceableKind_def)
  have xd: "json_each_tag (col_tags (row_of ev_d1)) ''d'' = [''x'']"
    by (simp add: row_of_def json_each_tag_def indexedTagsMap_def indexedTags_def sel
        tag_name_def tag_value_def tagsFilterRegExp_def is_letter_def)
  have r1: "addressable_results ev_d1 empty_env = []"
    by (simp add: addressable_results_def empty_env_def)
  have r2: "addressable_results ev_d2 (save ev_d1 None 1 empty_env) = []"
    by (simp add: addressable_results_def empty_env_def i xd)
  have b: "broadcast sample_broadcastable ctx_two ev_d1 = []"
    "broadcast sample_broadcastable ctx_two ev_d2 = []"
    by (simp_all add: broadcast_def ctx_two_def sample_broadcastable_def empty_filter_def sel)
  have c: "ipAddress conn_authed = None" "id_conn conn_authed = ''c1''"
    by (simp_all add: conn_authed_def)
  have h1: "EventMessageHandler_handle sample_verifyEvent sample_broadcastable defaultConfig
      ''u1'' 1 ctx_two empty_env conn_authed ev_d1 =
      (conn_authed, save ev_d1 None 1 empty_env, [(''c1'', OK id_a True [])])"
    using v n h by (simp add: EventMessageHandler_handle_def sel k b c saveAddressableEvent_def
        r1 saveLatestEvent_def)
  have h2: "EventMessageHandler_handle sample_verifyEvent sample_broadcastable defaultConfig
      ''u1'' 2 ctx_two (save ev_d1 None 1 empty_env) conn_authed ev_d2 =
      (conn_authed, save ev_d2 None 2 (save ev_d1 None 1 empty_env),
       [(''c1'', OK id_b True [])])"
    using v n h by (simp add: EventMessageHandler_handle_def sel k b c saveAddressableEvent_def
        r2 saveLatestEvent_def)
  show ?thesis
    using i h h1 h2 by (simp add: sel empty_env_def)
qed

end
